theory Spec2Isabelle
  imports Complex_Main "HOL-Library.Sublist" "HOL-Library.AList"
begin

section \<open>Data model\<close>

text \<open>
  The script \<^verbatim>\<open>standardize_fields.py\<close> loads a JSON document, rewrites the keys of every
  record with the table \<^verbatim>\<open>FIELD_MAPPING\<close>, turns numeric-looking texts into numbers and
  collects the new records. The model starts at the loaded document and ends at the list
  \<^verbatim>\<open>standardized_data\<close>; reading and writing the files and the progress prints are
  left out.

  A text is a list of code points. A code point is an Isabelle \<^typ>\<open>char\<close>, read as a code
  point below 256, so the model covers texts over U+0000 .. U+00FF.

  A Python float is an IEEE double. \<open>Rounded neg q\<close> stands for the double that the
  interpreter's decimal-to-binary conversion produces for the decimal magnitude \<open>q\<close>
  with sign bit \<open>neg\<close>; the rounding itself is not computed. Two equal values of the
  model are therefore equal doubles. \<open>Inf\<close> and \<open>NaN\<close> are the non-finite floats that
  \<^verbatim>\<open>json.load\<close> builds from the tokens \<^verbatim>\<open>Infinity\<close>, \<^verbatim>\<open>-Infinity\<close> and \<^verbatim>\<open>NaN\<close>.
\<close>

datatype pyfloat = Rounded bool rat | Inf bool | NaN

text \<open>
  What \<^verbatim>\<open>json.load\<close> returns: \<^verbatim>\<open>None\<close>, a bool, an int (unbounded), a float, a str, a
  list, or a dict with str keys. A dict keeps its insertion order, so it is an
  association list; the keys of a loaded dict are distinct.
\<close>

datatype json =
    JNull
  | JBool bool
  | JInt int
  | JFloat pyfloat
  | JStr string
  | JArr "json list"
  | JObj "(string \<times> json) list"

datatype pyerror = ValueError | TypeError | AttributeError

section \<open>The field mapping table\<close>

definition FIELD_MAPPING :: "(string \<times> string) list" where
  "FIELD_MAPPING = [
   (''LOC_ID'', ''locId''),
   (''Airport'', ''airportName''),
   (''City'', ''city''),
   (''State'', ''state''),
   (''Hub_FY25'', ''hubSize''),
   (''FYE'', ''fiscalYearEnd''),
   (''Date Filed'', ''dateFiled''),
   (''FYE_year'', ''fiscalYear''),
   (''NTAD_LAT_DECIMAL'', ''latitude''),
   (''NTAD_LONG_DECIMAL'', ''longitude''),
   (''passenger_airline_landing_fees'', ''passengerAirlineLandingFees''),
   (''terminal_arrival_rent_util'', ''terminalArrivalRentUtil''),
   (''terminal_apron_charges'', ''terminalApronCharges''),
   (''federal_inspection_fees'', ''federalInspectionFees''),
   (''other_passenger_aero_fees'', ''otherPassengerAeroFees''),
   (''Total Passenger Airline Aeronautical Revenue'', ''totalPassengerAeroRevenue''),
   (''landing_fees_cargo'', ''cargoLandingFees''),
   (''landing_fees_ga_mil'', ''gaAndMilitaryLandingFees''),
   (''fbo_revenue'', ''fboRevenue''),
   (''cargo_hangar_rentals'', ''cargoHangarRentals''),
   (''aviation_fuel_tax_retained'', ''aviationFuelTaxRetained''),
   (''fuel_sales_or_flowage'', ''fuelSalesOrFlowage''),
   (''security_reimb_fed'', ''federalSecurityReimbursement''),
   (''other_nonpassenger_aero'', ''otherNonpassengerAeroRevenue''),
   (''Total Non-Passenger Aeronautical Revenue'', ''totalNonpassengerAeroRevenue''),
   (''land_nonterminal_leases'', ''landAndNonterminalLeases''),
   (''terminal_food_bev'', ''terminalFoodAndBeverage''),
   (''terminal_retail_dutyfree'', ''terminalRetailAndDutyFree''),
   (''terminal_services_other'', ''terminalServicesAndOther''),
   (''rental_cars_excl_cfc'', ''rentalCarsExclCfc''),
   (''parking_ground_transport'', ''parkingAndGroundTransport''),
   (''hotel'', ''hotelRevenue''),
   (''other_nonaero'', ''otherNonAeroRevenue''),
   (''personnel_comp_benefits'', ''personnelCompensationAndBenefits''),
   (''communications_utilities'', ''communicationsAndUtilities''),
   (''supplies_materials'', ''suppliesAndMaterials''),
   (''contractual_services'', ''contractualServices''),
   (''insurance_claims_settlements'', ''insuranceClaimsAndSettlements''),
   (''other_operating_expenses'', ''otherOperatingExpenses''),
   (''depreciation'', ''depreciation''),
   (''Operating Income'', ''operatingIncome''),
   (''op_income'', ''totalOperatingIncome''),
   (''interest_income'', ''interestIncome''),
   (''interest_expense'', ''interestExpense''),
   (''grant_receipts'', ''grantReceipts''),
   (''pfc'', ''passengerFacilityCharges''),
   (''capital_contributions'', ''capitalContributions''),
   (''special_items_loss'', ''specialItemsLoss''),
   (''other_nonoperating_revenue'', ''otherNonoperatingRevenue''),
   (''net_assets_change'', ''netAssetsChange''),
   (''net_assets_beg'', ''netAssetsBeginning''),
   (''net_assets_end'', ''netAssetsEnd''),
   (''Airfield'', ''airfieldCapex''),
   (''Terminal'', ''terminalCapex''),
   (''Parking'', ''parkingCapex''),
   (''Roadways - Rail - Transit'', ''roadwaysRailTransitCapex''),
   (''Other Capital Expenditures'', ''otherCapitalExpenditures''),
   (''total_capex'', ''totalCapex''),
   (''Long Term Bonds'', ''longTermBonds''),
   (''Loans and interim financing'', ''loansAndInterimFinancing''),
   (''Special facility bonds'', ''specialFacilityBonds''),
   (''total_debt_end_year'', ''totalDebtEndYear''),
   (''restricted_debt_reserves'', ''restrictedDebtReserves''),
   (''restricted_renewals_repl'', ''restrictedRenewalsAndReplacements''),
   (''Restricted other'', ''restrictedOther''),
   (''Total Restricted Assets'', ''totalRestrictedAssets''),
   (''unrestricted_cash_investments'', ''unrestrictedCashAndInvestments''),
   (''Bond proceeds'', ''bondProceeds''),
   (''proceeds_sale_property'', ''proceedsSaleOfProperty''),
   (''debt_service_excl_coverage'', ''debtServiceExclCoverage''),
   (''debt_service_net_pfc'', ''debtServiceNetPfc''),
   (''enplanements'', ''enplanements''),
   (''Landed weights in pounds'', ''landedWeightsInPounds''),
   (''Signatory landing fee rate per 1000 lbs'', ''signatoryLandingFeeRatePer1000Lbs''),
   (''Annual aircraft operations'', ''annualAircraftOperations''),
   (''Passenger airline cost per enplanement'', ''passengerAirlineCostPerEnplanement''),
   (''Full time equivalent employees at end of year'', ''fullTimeEquivalentEmployees''),
   (''Security and law enforcement costs'', ''securityAndLawEnforcementCosts''),
   (''ARFF costs'', ''arffCosts''),
   (''Repairs and maintenance'', ''repairsAndMaintenance''),
   (''Marketing - Advertising - Promotions'', ''marketingAdvertisingPromotions''),
   (''aero_passenger_rev'', ''totalAeroPassengerRevenue''),
   (''aero_nonpassenger_rev'', ''totalAeroNonpassengerRevenue''),
   (''aero_total_rev'', ''totalAeronauticalRevenue''),
   (''nonaero_rev'', ''totalNonAeronauticalRevenue''),
   (''op_rev'', ''totalOperatingRevenue''),
   (''op_exp'', ''totalOperatingExpenses''),
   (''nonop_net_and_capital'', ''totalNonoperatingNetAndCapital''),
   (''capex_total'', ''totalCapitalExpenditures''),
   (''debt_total'', ''totalDebt''),
   (''restricted_assets_total'', ''totalRestrictedAssetsCalculated''),
   (''reporting_year_proceeds'', ''reportingYearProceeds''),
   (''debt_service_total'', ''totalDebtService''),
   (''kpi_cpe'', ''costPerEnplanement''),
   (''kpi_oper_margin'', ''operatingMargin'')
  ]"

text \<open>\<^verbatim>\<open>FIELD_MAPPING.get(old_field, old_field)\<close>\<close>

definition new_field :: "string \<Rightarrow> string" where
  "new_field old_field =
     (case map_of FIELD_MAPPING old_field of Some c \<Rightarrow> c | None \<Rightarrow> old_field)"

section \<open>String operations of the interpreter\<close>

text \<open>
  \<^verbatim>\<open>s.replace(old, new)\<close>: the occurrences of \<open>old\<close> are found from the left and do not
  overlap. With an empty \<open>old\<close>, \<open>new\<close> goes before every character and at the end.
\<close>

function str_replace :: "string \<Rightarrow> string \<Rightarrow> string \<Rightarrow> string" where
  "str_replace old new [] = (if old = [] then new else [])"
| "str_replace old new (c # cs) =
     (if old = [] then new @ c # str_replace old new cs
      else if prefix old (c # cs) then new @ str_replace old new (drop (length old) (c # cs))
      else c # str_replace old new cs)"
  by pat_completeness auto
termination
  by (relation "measure (\<lambda>(old, new, s). length s)") auto

text \<open>\<^verbatim>\<open>sub in s\<close>\<close>

fun str_contains :: "string \<Rightarrow> string \<Rightarrow> bool" where
  "str_contains sub [] = (sub = [])"
| "str_contains sub (c # cs) = (prefix sub (c # cs) \<or> str_contains sub cs)"

text \<open>
  \<^verbatim>\<open>s.isdigit()\<close>: the text is not empty and every character is a digit. Below U+0100
  the digits are \<open>0\<close> .. \<open>9\<close> and the superscripts U+00B2, U+00B3 and U+00B9.
\<close>

definition char_isdigit :: "char \<Rightarrow> bool" where
  "char_isdigit c = (c \<in> set ''0123456789'' \<or> c \<in> {CHR 0xB2, CHR 0xB3, CHR 0xB9})"

definition str_isdigit :: "string \<Rightarrow> bool" where
  "str_isdigit s = (s \<noteq> [] \<and> list_all char_isdigit s)"

section \<open>Parsing numbers\<close>

text \<open>
  \<^verbatim>\<open>int(s)\<close> and \<^verbatim>\<open>float(s)\<close> are called only on texts that passed the test of line 166.
  Such a text holds digits, \<open>.\<close>, \<open>-\<close>, \<open>+\<close>, \<open>E\<close> and \<open>e\<close> only (lemma
  \<open>looks_numeric_chars\<close> below), so the forms with blanks, underscores, \<open>inf\<close> and
  \<open>nan\<close> never reach the parsers and are not modelled: on other texts the two functions
  below answer \<open>ValueError\<close>. Only \<open>0\<close> .. \<open>9\<close> are decimal digits below U+0100; a
  superscript digit makes both parsers raise \<open>ValueError\<close>.
\<close>

definition is_decimal :: "char \<Rightarrow> bool" where
  "is_decimal c = (c \<in> set ''0123456789'')"

definition digit_val :: "char \<Rightarrow> nat" where
  "digit_val c = of_char c - 48"

definition digits_val :: "string \<Rightarrow> nat" where
  "digits_val ds = foldl (\<lambda>n c. 10 * n + digit_val c) 0 ds"

text \<open>An optional sign: \<open>True\<close> for \<open>-\<close>.\<close>

definition split_sign :: "string \<Rightarrow> bool \<times> string" where
  "split_sign s =
     (case s of
        [] \<Rightarrow> (False, [])
      | c # cs \<Rightarrow>
          if c = CHR ''-'' then (True, cs)
          else if c = CHR ''+'' then (False, cs)
          else (False, s))"

text \<open>\<^verbatim>\<open>int(s)\<close>: a sign, then one digit or more.\<close>

definition py_int :: "string \<Rightarrow> pyerror + int" where
  "py_int s =
     (case split_sign s of (neg, ds) \<Rightarrow>
        if ds \<noteq> [] \<and> list_all is_decimal ds
        then Inr (if neg then - int (digits_val ds) else int (digits_val ds))
        else Inl ValueError)"

definition pow10 :: "int \<Rightarrow> rat" where
  "pow10 e = (if 0 \<le> e then 10 ^ nat e else 1 / 10 ^ nat (- e))"

text \<open>The exponent part of a float text: nothing, or \<open>e\<close>/\<open>E\<close>, a sign and digits.\<close>

definition exponent_of :: "string \<Rightarrow> int option" where
  "exponent_of r =
     (case r of
        [] \<Rightarrow> Some 0
      | c # cs \<Rightarrow>
          if c = CHR ''e'' \<or> c = CHR ''E'' then
            (case split_sign cs of (neg, ds) \<Rightarrow>
               if ds \<noteq> [] \<and> list_all is_decimal ds
               then Some (if neg then - int (digits_val ds) else int (digits_val ds))
               else None)
          else None)"

text \<open>
  \<^verbatim>\<open>float(s)\<close>: a sign, digits, an optional point with digits (one digit at least on
  one side of the point), an optional exponent, and nothing after it.
\<close>

definition py_float :: "string \<Rightarrow> pyerror + pyfloat" where
  "py_float s =
     (case split_sign s of (neg, r) \<Rightarrow>
        let ip = takeWhile is_decimal r;
            r1 = dropWhile is_decimal r;
            fp = (case r1 of [] \<Rightarrow> [] | c # cs \<Rightarrow>
                    if c = CHR ''.'' then takeWhile is_decimal cs else []);
            r2 = (case r1 of [] \<Rightarrow> [] | c # cs \<Rightarrow>
                    if c = CHR ''.'' then dropWhile is_decimal cs else r1)
        in if ip = [] \<and> fp = [] then Inl ValueError
           else (case exponent_of r2 of
                   None \<Rightarrow> Inl ValueError
                 | Some e \<Rightarrow>
                     Inr (Rounded neg
                            (of_nat (digits_val (ip @ fp)) * pow10 (e - int (length fp))))))"

section \<open>The transform\<close>

text \<open>
  Line 166: the text with every \<open>.\<close>, then every \<open>-\<close>, then every \<open>E+\<close>, then every
  \<open>e+\<close> replaced by nothing, and the test \<^verbatim>\<open>isdigit\<close> on what is left.
\<close>

definition stripped :: "string \<Rightarrow> string" where
  "stripped s =
     str_replace ''e+'' [] (str_replace ''E+'' [] (str_replace ''-'' [] (str_replace ''.'' [] s)))"

definition looks_numeric :: "string \<Rightarrow> bool" where
  "looks_numeric s = str_isdigit (stripped s)"

text \<open>Lines 168 to 173: the parse chosen for a text that passed the test.\<close>

definition parse_number :: "string \<Rightarrow> pyerror + json" where
  "parse_number s =
     (if str_contains ''E+'' s \<or> str_contains ''e+'' s then map_sum id JFloat (py_float s)
      else if str_contains ''.'' s then map_sum id JFloat (py_float s)
      else map_sum id JInt (py_int s))"

text \<open>
  Lines 166 to 175: the value that is stored. The \<^verbatim>\<open>except\<close> clause catches
  \<open>ValueError\<close> and \<open>TypeError\<close> and keeps the text; any other error goes on.
\<close>

definition convert_value :: "json \<Rightarrow> pyerror + json" where
  "convert_value v =
     (case v of
        JStr s \<Rightarrow>
          if looks_numeric s then
            (case parse_number s of
               Inr n \<Rightarrow> Inr n
             | Inl e \<Rightarrow> if e = ValueError \<or> e = TypeError then Inr v else Inl e)
          else Inr v
      | _ \<Rightarrow> Inr v)"

text \<open>
  Lines 162 to 177: the loop over \<^verbatim>\<open>record.items()\<close>. \<^verbatim>\<open>new_record[new_field] = value\<close>
  replaces the value of a key that is present, at its place, and adds a new key at the
  end: that is \<^const>\<open>AList.update\<close>.
\<close>

fun record_loop :: "(string \<times> json) list \<Rightarrow> (string \<times> json) list \<Rightarrow>
    pyerror + (string \<times> json) list" where
  "record_loop [] new_record = Inr new_record"
| "record_loop ((old_field, v) # rest) new_record =
     (case convert_value v of
        Inl e \<Rightarrow> Inl e
      | Inr v' \<Rightarrow> record_loop rest (AList.update (new_field old_field) v' new_record))"

text \<open>Lines 159 to 177: one record, from an empty \<^verbatim>\<open>new_record\<close>.\<close>

definition transform_record :: "(string \<times> json) list \<Rightarrow> pyerror + (string \<times> json) list" where
  "transform_record items = record_loop items []"

text \<open>
  Lines 154 to 179: the loop over \<^verbatim>\<open>data\<close>. \<^verbatim>\<open>record.items()\<close> raises \<open>AttributeError\<close>
  on an element that is not a dict. The index \<open>i\<close> of \<^verbatim>\<open>enumerate\<close> is used by the
  progress print only.
\<close>

fun data_loop :: "json list \<Rightarrow> json list \<Rightarrow> pyerror + json list" where
  "data_loop [] standardized_data = Inr standardized_data"
| "data_loop (JObj items # rest) standardized_data =
     (case transform_record items of
        Inl e \<Rightarrow> Inl e
      | Inr new_record \<Rightarrow> data_loop rest (standardized_data @ [JObj new_record]))"
| "data_loop (_ # rest) standardized_data = Inl AttributeError"

text \<open>
  What the loop iterates over: the elements of a list, the keys of a dict, the
  characters of a str. \<^verbatim>\<open>len(data)\<close> on line 151 raises \<open>TypeError\<close> on anything else.
\<close>

definition elements_of :: "json \<Rightarrow> pyerror + json list" where
  "elements_of data =
     (case data of
        JArr xs \<Rightarrow> Inr xs
      | JObj items \<Rightarrow> Inr (map (\<lambda>p. JStr (fst p)) items)
      | JStr s \<Rightarrow> Inr (map (\<lambda>c. JStr [c]) s)
      | _ \<Rightarrow> Inl TypeError)"

definition standardize_json_fields :: "json \<Rightarrow> pyerror + json list" where
  "standardize_json_fields data =
     (case elements_of data of
        Inl e \<Rightarrow> Inl e
      | Inr xs \<Rightarrow> data_loop xs [])"

section \<open>Definitions used in the proofs\<close>

text \<open>
  The conversion never raises (lemma \<open>convert_value_coerced\<close>), so it has a total
  form, and the loop over the items of a record is a left fold of one assignment.
\<close>

definition coerced :: "json \<Rightarrow> json" where
  "coerced v = (case convert_value v of Inr w \<Rightarrow> w | Inl e \<Rightarrow> v)"

definition put_field :: "(string \<times> json) list \<Rightarrow> string \<times> json \<Rightarrow> (string \<times> json) list" where
  "put_field new_record p = AList.update (new_field (fst p)) (coerced (snd p)) new_record"

text \<open>An entry that the transform leaves as it is: its key and its value are fixed.\<close>

definition settled :: "string \<times> json \<Rightarrow> bool" where
  "settled p = (new_field (fst p) = fst p \<and> coerced (snd p) = snd p)"

text \<open>
  The shape of the legacy keys of the table: an underscore, a blank or a first character
  before \<open>a\<close>. No canonical key has it, which is checked entry by entry.
\<close>

definition legacy_shape :: "string \<Rightarrow> bool" where
  "legacy_shape k = (CHR ''_'' \<in> set k \<or> CHR '' '' \<in> set k \<or>
     (case k of [] \<Rightarrow> False | c # _ \<Rightarrow> of_char c < (97::nat)))"

definition entry_ok :: "string \<times> string \<Rightarrow> bool" where
  "entry_ok p =
     ((legacy_shape (fst p) \<or> fst p = snd p \<or> fst p = ''hotel'' \<or> fst p = ''pfc'') \<and>
      \<not> legacy_shape (snd p) \<and> snd p \<noteq> ''hotel'' \<and> snd p \<noteq> ''pfc'')"

section \<open>String operations\<close>

lemma str_replace_char: "str_replace [c] [] s = filter (\<lambda>x. x \<noteq> c) s"
  by (induction s) auto

lemma str_contains_sublist: "str_contains sub s = sublist sub s"
  by (induction s) (auto simp: sublist_Cons_right)

lemma str_contains_char: "str_contains [c] s = (c \<in> set s)"
  by (induction s) auto

lemma set_str_replace: "old \<noteq> [] \<Longrightarrow> set s \<subseteq> set (str_replace old new s) \<union> set old"
proof (induction old new s rule: str_replace.induct)
  case (1 old new)
  then show ?case by simp
next
  case (2 old new c cs)
  show ?case
  proof (cases "prefix old (c # cs)")
    case True
    then obtain r where r: "c # cs = old @ r" by (auto simp: prefix_def)
    then have d: "drop (length old) (c # cs) = r" by (metis append_eq_conv_conj)
    from 2(2)[OF \<open>old \<noteq> []\<close> True \<open>old \<noteq> []\<close>] d
    have "set r \<subseteq> set (str_replace old new r) \<union> set old" by simp
    moreover have "str_replace old new (c # cs) = new @ str_replace old new r"
      using True d 2(4) by simp
    moreover have "set (c # cs) = set old \<union> set r" using r by (metis set_append)
    ultimately show ?thesis by auto
  next
    case False
    with 2 show ?thesis by auto
  qed
qed

lemma stripped_chars:
  "set s \<subseteq> set (stripped s) \<union> {CHR ''.'', CHR ''-'', CHR ''E'', CHR ''e'', CHR ''+''}"
proof -
  let ?a = "str_replace ''.'' [] s"
  let ?b = "str_replace ''-'' [] ?a"
  let ?c = "str_replace ''E+'' [] ?b"
  have "set s \<subseteq> set ?a \<union> {CHR ''.''}" using set_str_replace[of "''.''" s "[]"] by simp
  moreover have "set ?a \<subseteq> set ?b \<union> {CHR ''-''}" using set_str_replace[of "''-''" ?a "[]"] by simp
  moreover have "set ?b \<subseteq> set ?c \<union> {CHR ''E'', CHR ''+''}" using set_str_replace[of "''E+''" ?b "[]"] by simp
  moreover have "set ?c \<subseteq> set (stripped s) \<union> {CHR ''e'', CHR ''+''}"
    using set_str_replace[of "''e+''" ?c "[]"] by (simp add: stripped_def)
  ultimately show ?thesis by blast
qed

lemma looks_numeric_chars:
  "looks_numeric s \<Longrightarrow> c \<in> set s \<Longrightarrow>
   char_isdigit c \<or> c \<in> {CHR ''.'', CHR ''-'', CHR ''E'', CHR ''e'', CHR ''+''}"
  using stripped_chars[of s] by (auto simp: looks_numeric_def str_isdigit_def list_all_iff)

section \<open>The conversion of a value\<close>

lemma py_int_error: "py_int s = Inl e \<Longrightarrow> e = ValueError"
  by (auto simp: py_int_def split: prod.splits if_splits)

lemma py_float_error: "py_float s = Inl e \<Longrightarrow> e = ValueError"
  by (auto simp: py_float_def Let_def split: prod.splits if_splits option.splits)

lemma parse_number_error: "parse_number s = Inl e \<Longrightarrow> e = ValueError"
  by (auto simp: parse_number_def map_sum_def split: if_splits sum.splits dest: py_int_error py_float_error)

lemma convert_value_coerced: "convert_value v = Inr (coerced v)"
  by (auto simp: coerced_def convert_value_def split: json.splits sum.splits dest: parse_number_error)

lemma parse_number_not_str: "parse_number s = Inr n \<Longrightarrow> n \<noteq> JStr t"
  by (auto simp: parse_number_def map_sum_def split: if_splits sum.splits)

lemma coerced_cases: "coerced v = v \<or> (\<forall>t. coerced v \<noteq> JStr t)"
  by (auto simp: coerced_def convert_value_def split: json.splits sum.splits dest: parse_number_not_str)

lemma coerced_not_str: "(\<forall>t. v \<noteq> JStr t) \<Longrightarrow> coerced v = v"
  by (auto simp: coerced_def convert_value_def split: json.splits)

lemma coerced_idem: "coerced (coerced v) = coerced v"
  using coerced_cases[of v] coerced_not_str[of "coerced v"] by auto

section \<open>Facts about the table\<close>

text \<open>
  The keys of the table are distinct, so the first match of \<^const>\<open>map_of\<close> is the entry
  that the dict literal holds. Its canonical keys are distinct as well.
\<close>

lemma table_entries_ok: "list_all entry_ok FIELD_MAPPING"
  by (simp add: FIELD_MAPPING_def entry_ok_def legacy_shape_def)

lemma table_keys_distinct: "distinct (map fst FIELD_MAPPING)"
  by code_simp

lemma table_values_distinct: "distinct (map snd FIELD_MAPPING)"
  by code_simp

lemma new_field_in_table: "(k, c) \<in> set FIELD_MAPPING \<Longrightarrow> new_field k = c"
  using table_keys_distinct by (simp add: new_field_def)

lemma new_field_not_in_table: "k \<notin> fst ` set FIELD_MAPPING \<Longrightarrow> new_field k = k"
proof -
  assume "k \<notin> fst ` set FIELD_MAPPING"
  then have "map_of FIELD_MAPPING k = None" by (rule iffD2[OF map_of_eq_None_iff])
  then show ?thesis by (simp add: new_field_def)
qed

lemma new_field_cases: "new_field k = k \<or> (k, new_field k) \<in> set FIELD_MAPPING"
  by (auto simp: new_field_def split: option.splits dest: map_of_SomeD)

lemma canonical_fixed: "(k, c) \<in> set FIELD_MAPPING \<Longrightarrow> new_field c = c"
proof -
  assume kc: "(k, c) \<in> set FIELD_MAPPING"
  with table_entries_ok have c: "\<not> legacy_shape c" "c \<noteq> ''hotel''" "c \<noteq> ''pfc''"
    by (auto simp: list_all_iff entry_ok_def)
  show "new_field c = c"
  proof (rule ccontr)
    assume "new_field c \<noteq> c"
    with new_field_cases[of c] have "(c, new_field c) \<in> set FIELD_MAPPING" by simp
    with table_entries_ok have "entry_ok (c, new_field c)" by (auto simp: list_all_iff)
    with c \<open>new_field c \<noteq> c\<close> show False by (auto simp: entry_ok_def)
  qed
qed

lemma new_field_idem: "new_field (new_field k) = new_field k"
  using new_field_cases[of k] canonical_fixed[of k "new_field k"] by auto

lemma legacy_unique: "(k, c) \<in> set FIELD_MAPPING \<Longrightarrow> (k', c) \<in> set FIELD_MAPPING \<Longrightarrow> k = k'"
proof -
  assume a: "(k, c) \<in> set FIELD_MAPPING" "(k', c) \<in> set FIELD_MAPPING"
  have "inj_on snd (set FIELD_MAPPING)" using table_values_distinct by (simp add: distinct_map)
  from inj_onD[OF this _ a] have "(k, c) = (k', c)" by simp
  then show ?thesis by simp
qed

lemma collision_third:
  assumes "new_field k1 = c" "new_field k2 = c" "new_field k3 = c" "k1 \<noteq> k2"
  shows "k3 = k1 \<or> k3 = k2"
  using assms new_field_cases[of k1] new_field_cases[of k2] new_field_cases[of k3]
  by (metis legacy_unique)

section \<open>The loops\<close>

lemma record_loop_foldl: "record_loop items acc = Inr (foldl put_field acc items)"
  by (induction items arbitrary: acc) (auto simp: convert_value_coerced put_field_def)

lemma transform_record_foldl: "transform_record items = Inr (foldl put_field [] items)"
  by (simp add: transform_record_def record_loop_foldl)

lemma keys_foldl:
  "fst ` set (foldl put_field acc items) = fst ` set acc \<union> new_field ` fst ` set items"
  by (induction items arbitrary: acc) (auto simp: put_field_def AList.dom_update)

lemma distinct_foldl:
  "distinct (map fst acc) \<Longrightarrow> distinct (map fst (foldl put_field acc items))"
  by (induction items arbitrary: acc) (auto simp: put_field_def AList.distinct_update)

lemma map_of_foldl_other:
  "c \<notin> new_field ` fst ` set items \<Longrightarrow> map_of (foldl put_field acc items) c = map_of acc c"
  by (induction items arbitrary: acc) (auto simp: put_field_def AList.update_conv')

lemma stored_value:
  "\<forall>p \<in> set zs. new_field (fst p) \<noteq> new_field k \<Longrightarrow>
   map_of (foldl put_field [] (xs @ (k, v) # zs)) (new_field k) = Some (coerced v)"
proof -
  assume "\<forall>p \<in> set zs. new_field (fst p) \<noteq> new_field k"
  then have "new_field k \<notin> new_field ` fst ` set zs" by force
  then have "map_of (foldl put_field (put_field (foldl put_field [] xs) (k, v)) zs) (new_field k) =
             map_of (put_field (foldl put_field [] xs) (k, v)) (new_field k)"
    by (rule map_of_foldl_other)
  then show ?thesis by (simp add: put_field_def AList.update_conv')
qed

lemma update_fresh: "k \<notin> fst ` set al \<Longrightarrow> AList.update k v al = al @ [(k, v)]"
  by (induction al) auto

lemma set_update_subset: "set (AList.update k v al) \<subseteq> insert (k, v) (set al)"
  by (induction al) auto

lemma settled_foldl:
  "list_all settled acc \<Longrightarrow> list_all settled (foldl put_field acc items)"
proof (induction items arbitrary: acc)
  case Nil
  then show ?case by simp
next
  case (Cons p items)
  have "settled (new_field (fst p), coerced (snd p))"
    by (simp add: settled_def new_field_idem coerced_idem)
  with Cons.prems have "list_all settled (put_field acc p)"
    using set_update_subset[of "new_field (fst p)" "coerced (snd p)" acc]
    by (auto simp: list_all_iff put_field_def)
  then show ?case using Cons.IH by simp
qed

lemma foldl_settled:
  "list_all settled xs \<Longrightarrow> distinct (map fst xs) \<Longrightarrow> fst ` set xs \<inter> fst ` set acc = {} \<Longrightarrow>
   foldl put_field acc xs = acc @ xs"
proof (induction xs arbitrary: acc)
  case Nil
  then show ?case by simp
next
  case (Cons p xs)
  from Cons.prems have p: "new_field (fst p) = fst p" "coerced (snd p) = snd p"
    by (simp_all add: settled_def)
  from Cons.prems have "fst p \<notin> fst ` set acc" by auto
  then have step: "put_field acc p = acc @ [p]"
    by (simp add: put_field_def p update_fresh)
  have "foldl put_field (acc @ [p]) xs = (acc @ [p]) @ xs"
  proof (rule Cons.IH)
    show "list_all settled xs" using Cons.prems by simp
    show "distinct (map fst xs)" using Cons.prems by simp
    show "fst ` set xs \<inter> fst ` set (acc @ [p]) = {}" using Cons.prems by auto
  qed
  then show ?case by (simp add: step)
qed

lemma transform_twice:
  "foldl put_field [] (foldl put_field [] items) = foldl put_field [] items"
proof -
  let ?out = "foldl put_field [] items"
  have "list_all settled ?out" by (rule settled_foldl) simp
  moreover have "distinct (map fst ?out)" by (rule distinct_foldl) simp
  ultimately show ?thesis using foldl_settled[of ?out "[]"] by simp
qed

lemma single_entry:
  "distinct (map fst al) \<Longrightarrow> map_of al c = Some w \<Longrightarrow> filter (\<lambda>p. fst p = c) al = [(c, w)]"
proof (induction al)
  case Nil
  then show ?case by simp
next
  case (Cons p al)
  show ?case
  proof (cases "fst p = c")
    case True
    with Cons.prems have "p = (c, w)" by (cases p) auto
    moreover from True Cons.prems have "c \<notin> fst ` set al" by auto
    then have "filter (\<lambda>p. fst p = c) al = []" by (auto simp: filter_empty_conv)
    ultimately show ?thesis by simp
  next
    case False
    with Cons show ?thesis by auto
  qed
qed

lemma data_loop_map:
  "\<forall>x \<in> set xs. \<exists>items. x = JObj items \<Longrightarrow>
   data_loop xs acc =
     Inr (acc @ map (\<lambda>x. case x of JObj items \<Rightarrow> JObj (foldl put_field [] items) | _ \<Rightarrow> x) xs)"
proof (induction xs arbitrary: acc)
  case Nil
  then show ?case by simp
next
  case (Cons x xs)
  then obtain items where x: "x = JObj items" by auto
  from Cons show ?case by (simp add: x transform_record_foldl)
qed

section \<open>What the test of line 166 rejects\<close>

lemma sublist_filter: "sublist xs s \<Longrightarrow> sublist (filter P xs) (filter P s)"
proof -
  assume "sublist xs s"
  then obtain ps ss where "s = ps @ xs @ ss" by (auto simp: sublist_def)
  then have "filter P s = filter P ps @ filter P xs @ filter P ss" by simp
  then show ?thesis unfolding sublist_def by blast
qed

lemma replace_keeps_pair:
  assumes "x \<noteq> q" "y \<noteq> q" "y \<noteq> p"
  shows "sublist [x, y] s \<Longrightarrow> sublist [x, y] (str_replace [p, q] [] s)"
proof (induction s rule: length_induct)
  case (1 s)
  show ?case
  proof (cases s)
    case Nil
    with 1 show ?thesis by simp
  next
    case (Cons c cs)
    show ?thesis
    proof (cases "prefix [p, q] (c # cs)")
      case True
      then obtain r where r: "c = p" "cs = q # r" by (auto simp: prefix_def)
      from 1(2) have "sublist [x, y] r"
        using assms by (auto simp: Cons r sublist_Cons_right)
      moreover have "length r < length s" by (simp add: Cons r)
      ultimately have "sublist [x, y] (str_replace [p, q] [] r)" using 1(1) by blast
      then show ?thesis by (simp add: Cons r)
    next
      case False
      then have step: "str_replace [p, q] [] s = c # str_replace [p, q] [] cs"
        by (auto simp: Cons)
      from 1(2) consider (here) "prefix [x, y] (c # cs)" | (later) "sublist [x, y] cs"
        by (auto simp: Cons sublist_Cons_right)
      then show ?thesis
      proof cases
        case here
        then obtain r where r: "c = x" "cs = y # r" by (auto simp: prefix_def)
        have "str_replace [p, q] [] cs = y # str_replace [p, q] [] r"
          using assms by (simp add: r)
        then show ?thesis by (simp add: step r sublist_Cons_right)
      next
        case later
        moreover have "length cs < length s" by (simp add: Cons)
        ultimately have "sublist [x, y] (str_replace [p, q] [] cs)" using 1(1) by blast
        then show ?thesis by (simp add: step sublist_Cons_right)
      qed
    qed
  qed
qed

lemma sublist_mem: "sublist [x, y] s \<Longrightarrow> x \<in> set s"
  by (auto simp: sublist_def)

lemma stripped_filter:
  "stripped s = str_replace ''e+'' [] (str_replace ''E+'' []
     (filter (\<lambda>c. c \<noteq> CHR ''-'') (filter (\<lambda>c. c \<noteq> CHR ''.'') s)))"
  by (simp add: stripped_def str_replace_char)

lemma digit_not_special:
  "char_isdigit d \<Longrightarrow> d \<notin> {CHR ''.'', CHR ''-'', CHR ''E'', CHR ''e'', CHR ''+''}"
  by (auto simp: char_isdigit_def)

lemma negative_exponent_rejected:
  assumes d: "char_isdigit d" and s: "sublist (''e-'' @ [d]) s"
  shows "\<not> looks_numeric s"
proof -
  from digit_not_special[OF d]
  have dn: "d \<noteq> CHR ''.''" "d \<noteq> CHR ''-''" "d \<noteq> CHR ''E''" "d \<noteq> CHR ''e''" "d \<noteq> CHR ''+''"
    by auto
  let ?a = "filter (\<lambda>c. c \<noteq> CHR ''.'') s"
  let ?b = "filter (\<lambda>c. c \<noteq> CHR ''-'') ?a"
  have "sublist (filter (\<lambda>c. c \<noteq> CHR ''.'') (''e-'' @ [d])) ?a" using s by (rule sublist_filter)
  then have "sublist (''e-'' @ [d]) ?a" using dn by simp
  then have "sublist (filter (\<lambda>c. c \<noteq> CHR ''-'') (''e-'' @ [d])) ?b" by (rule sublist_filter)
  then have b: "sublist [CHR ''e'', d] ?b" using dn by simp
  have c: "sublist [CHR ''e'', d] (str_replace ''E+'' [] ?b)"
    by (rule replace_keeps_pair[OF _ _ _ b]) (use dn in simp_all)
  have "sublist [CHR ''e'', d] (str_replace ''e+'' [] (str_replace ''E+'' [] ?b))"
    by (rule replace_keeps_pair[OF _ _ _ c]) (use dn in simp_all)
  then have "CHR ''e'' \<in> set (stripped s)"
    unfolding stripped_filter by (rule sublist_mem)
  moreover have "\<not> char_isdigit (CHR ''e'')" by (simp add: char_isdigit_def)
  ultimately show ?thesis by (auto simp: looks_numeric_def str_isdigit_def list_all_iff)
qed

lemma leading_plus_rejected: "\<not> looks_numeric (CHR ''+'' # u)"
proof -
  have "\<exists>r. stripped (CHR ''+'' # u) = CHR ''+'' # r"
    by (simp add: stripped_def)
  then show ?thesis
    by (auto simp: looks_numeric_def str_isdigit_def char_isdigit_def)
qed

section \<open>Evaluation\<close>

lemmas guard_eval = looks_numeric_def stripped_def str_isdigit_def char_isdigit_def

lemmas parse_eval = parse_number_def py_int_def py_float_def split_sign_def is_decimal_def
  digits_val_def digit_val_def exponent_of_def pow10_def

text \<open>
  A text in which \<open>e-\<close> is followed by \<open>+\<close> can pass the test: the removal of \<open>-\<close>
  makes an \<open>e+\<close>, which is removed next.
\<close>

lemma exponent_minus_plus_accepted: "sublist ''e-'' ''1e-+5'' \<and> looks_numeric ''1e-+5''"
  by (simp add: guard_eval sublist_Cons_right)

section \<open>Claims\<close>

text \<open>
  C1. A value that is not a text is returned unchanged. A text is coerced only when it
  passes the test of line 166, and then what is left of it after removing every \<open>.\<close>,
  every \<open>-\<close> and the substrings \<open>E+\<close> and \<open>e+\<close> consists of digit characters only.
  A text that passes is parsed as a float if it contains \<open>E+\<close> or \<open>e+\<close>, else as a
  float if it contains \<open>.\<close>, else as an integer; when the parse fails the text is kept.
\<close>

theorem C1_coercion_rule:
  "((\<forall>s. v \<noteq> JStr s) \<longrightarrow> convert_value v = Inr v) \<and>
   (\<not> looks_numeric s \<longrightarrow> convert_value (JStr s) = Inr (JStr s)) \<and>
   (looks_numeric t \<longrightarrow>
      list_all char_isdigit
        (str_replace ''e+'' [] (str_replace ''E+'' []
          (filter (\<lambda>c. c \<noteq> CHR ''-'') (filter (\<lambda>c. c \<noteq> CHR ''.'') t)))) \<and>
      convert_value (JStr t) =
        (case (if sublist ''E+'' t \<or> sublist ''e+'' t then map_sum id JFloat (py_float t)
               else if CHR ''.'' \<in> set t then map_sum id JFloat (py_float t)
               else map_sum id JInt (py_int t)) of
           Inr n \<Rightarrow> Inr n
         | Inl e \<Rightarrow> Inr (JStr t)))"
proof (intro conjI impI)
  assume "\<forall>s. v \<noteq> JStr s"
  then show "convert_value v = Inr v"
    by (cases v) (simp_all add: convert_value_def)
next
  assume "\<not> looks_numeric s"
  then show "convert_value (JStr s) = Inr (JStr s)"
    by (simp add: convert_value_def)
next
  assume "looks_numeric t"
  then show "list_all char_isdigit
        (str_replace ''e+'' [] (str_replace ''E+'' []
          (filter (\<lambda>c. c \<noteq> CHR ''-'') (filter (\<lambda>c. c \<noteq> CHR ''.'') t))))"
    by (simp add: looks_numeric_def str_isdigit_def stripped_filter)
next
  assume t: "looks_numeric t"
  have "parse_number t =
        (if sublist ''E+'' t \<or> sublist ''e+'' t then map_sum id JFloat (py_float t)
         else if CHR ''.'' \<in> set t then map_sum id JFloat (py_float t)
         else map_sum id JInt (py_int t))"
    by (simp only: parse_number_def str_contains_char str_contains_sublist[of "''E+''"]
        str_contains_sublist[of "''e+''"])
  then show "convert_value (JStr t) =
        (case (if sublist ''E+'' t \<or> sublist ''e+'' t then map_sum id JFloat (py_float t)
               else if CHR ''.'' \<in> set t then map_sum id JFloat (py_float t)
               else map_sum id JInt (py_int t)) of
           Inr n \<Rightarrow> Inr n
         | Inl e \<Rightarrow> Inr (JStr t))"
    using t parse_number_error[of t]
    by (auto simp: convert_value_def split: sum.splits)
qed

theorem C1_coercion_rule_witness:
  "convert_value (JInt 5) = Inr (JInt 5) \<and>
   \<not> looks_numeric ''abc'' \<and> convert_value (JStr ''abc'') = Inr (JStr ''abc'') \<and>
   looks_numeric ''1.5'' \<and> convert_value (JStr ''1.5'') = Inr (JFloat (Rounded False (3 / 2)))"
proof -
  have a: "\<forall>s. JInt 5 \<noteq> JStr s" by simp
  have b: "\<not> looks_numeric ''abc''" by (simp add: guard_eval)
  have c: "looks_numeric ''1.5''" by (simp add: guard_eval)
  have d: "py_float ''1.5'' = Inr (Rounded False (3 / 2))" by (simp add: parse_eval)
  from C1_coercion_rule[of "JInt 5" "''abc''" "''1.5''"] a b c
  have "convert_value (JInt 5) = Inr (JInt 5)"
    and "convert_value (JStr ''abc'') = Inr (JStr ''abc'')"
    and "convert_value (JStr ''1.5'') =
        (case (if sublist ''E+'' ''1.5'' \<or> sublist ''e+'' ''1.5'' then map_sum id JFloat (py_float ''1.5'')
               else if CHR ''.'' \<in> set ''1.5'' then map_sum id JFloat (py_float ''1.5'')
               else map_sum id JInt (py_int ''1.5'')) of
           Inr n \<Rightarrow> Inr n
         | Inl e \<Rightarrow> Inr (JStr ''1.5''))"
    by blast+
  then show ?thesis using b c d by (simp add: sublist_Cons_right)
qed

text \<open>
  C2. The output key is the canonical key of the table when the input key is a key of
  the table, and the input key itself otherwise. The lookup is a total function: it
  answers for every key. (The keys of the table are distinct, lemma
  \<open>table_keys_distinct\<close>, so the table holds one canonical key for a legacy key.)
\<close>

theorem C2_key_lookup:
  "((k, c) \<in> set FIELD_MAPPING \<longrightarrow> new_field k = c) \<and>
   (k' \<notin> fst ` set FIELD_MAPPING \<longrightarrow> new_field k' = k')"
  using new_field_in_table new_field_not_in_table by blast

theorem C2_key_lookup_witness:
  "(''LOC_ID'', ''locId'') \<in> set FIELD_MAPPING \<and> new_field ''LOC_ID'' = ''locId'' \<and>
   ''customField'' \<notin> fst ` set FIELD_MAPPING \<and> new_field ''customField'' = ''customField''"
proof -
  have a: "(''LOC_ID'', ''locId'') \<in> set FIELD_MAPPING"
    unfolding FIELD_MAPPING_def by (rule list.set_intros(1))
  have "map_of FIELD_MAPPING ''customField'' = None" by (simp add: FIELD_MAPPING_def)
  then have b: "''customField'' \<notin> fst ` set FIELD_MAPPING"
    by (rule iffD1[OF map_of_eq_None_iff])
  from C2_key_lookup[of "''LOC_ID''" "''locId''" "''customField''"] a b show ?thesis by blast
qed

text \<open>
  C3. In a record whose keys are distinct, let the key \<open>k1\<close> come before the key \<open>k2\<close>
  and let both map to the same canonical key. Then the transformed record has exactly
  one entry for that canonical key, and its value is the converted value of \<open>k2\<close>, the
  later key: the value of \<open>k1\<close> is overwritten.
\<close>

theorem C3_later_key_wins:
  assumes "distinct (map fst items)"
    and "items = xs @ (k1, v1) # ys @ (k2, v2) # zs"
    and "new_field k1 = new_field k2"
  shows "\<exists>out w. transform_record items = Inr out \<and> convert_value v2 = Inr w \<and>
           filter (\<lambda>p. fst p = new_field k2) out = [(new_field k2, w)]"
proof -
  let ?c = "new_field k2"
  let ?acc = "foldl put_field [] (xs @ (k1, v1) # ys)"
  let ?mid = "put_field ?acc (k2, v2)"
  let ?out = "foldl put_field [] items"
  have out: "?out = foldl put_field ?mid zs" by (simp add: assms(2))
  from assms(1,2) have ne: "k1 \<noteq> k2" by auto
  have "?c \<notin> new_field ` fst ` set zs"
  proof
    assume "?c \<in> new_field ` fst ` set zs"
    then obtain k3 where k3: "k3 \<in> fst ` set zs" "new_field k3 = ?c" by force
    with collision_third[OF assms(3) refl _ ne, of k3] have "k3 = k1 \<or> k3 = k2" by simp
    with k3(1) assms(1,2) show False by auto
  qed
  then have "map_of ?out ?c = map_of ?mid ?c" unfolding out by (rule map_of_foldl_other)
  also have "\<dots> = Some (coerced v2)" by (simp add: put_field_def AList.update_conv')
  finally have m: "map_of ?out ?c = Some (coerced v2)" .
  have "distinct (map fst ?out)" by (rule distinct_foldl) simp
  from single_entry[OF this m] show ?thesis
    using transform_record_foldl[of items] convert_value_coerced[of v2] by blast
qed

theorem C3_later_key_wins_witness:
  "distinct (map fst [(''LOC_ID'', JStr ''ABC''), (''locId'', JStr ''12'')]) \<and>
   new_field ''LOC_ID'' = new_field ''locId'' \<and>
   (\<exists>out. transform_record [(''LOC_ID'', JStr ''ABC''), (''locId'', JStr ''12'')] = Inr out \<and>
      filter (\<lambda>p. fst p = ''locId'') out = [(''locId'', JInt 12)])"
proof -
  let ?items = "[(''LOC_ID'', JStr ''ABC''), (''locId'', JStr ''12'')]"
  have a: "distinct (map fst ?items)" by simp
  have b: "?items = [] @ (''LOC_ID'', JStr ''ABC'') # [] @ (''locId'', JStr ''12'') # []" by simp
  have t: "(''LOC_ID'', ''locId'') \<in> set FIELD_MAPPING"
    unfolding FIELD_MAPPING_def by (rule list.set_intros(1))
  have n1: "new_field ''LOC_ID'' = ''locId''" using t by (rule new_field_in_table)
  have n2: "new_field ''locId'' = ''locId''" using t by (rule canonical_fixed)
  have c: "new_field ''LOC_ID'' = new_field ''locId''" by (simp only: n1 n2)
  have v: "convert_value (JStr ''12'') = Inr (JInt 12)"
    by (simp add: convert_value_def guard_eval parse_eval)
  from C3_later_key_wins[OF a b c] v n1 n2 show ?thesis using a by auto
qed

text \<open>
  C4. On a list of records the run ends without an error, the output has the length
  of the input, and the record at each place of the output is the transform of the
  record at the same place of the input, which depends on that record only.
\<close>

theorem C4_collection_order:
  assumes "\<forall>x \<in> set xs. \<exists>items. x = JObj items"
  shows "\<exists>ys. standardize_json_fields (JArr xs) = Inr ys \<and> length ys = length xs \<and>
           (\<forall>i < length xs. \<exists>items out. xs ! i = JObj items \<and>
              transform_record items = Inr out \<and> ys ! i = JObj out)"
proof -
  let ?f = "\<lambda>x. case x of JObj items \<Rightarrow> JObj (foldl put_field [] items) | _ \<Rightarrow> x"
  have run: "standardize_json_fields (JArr xs) = Inr (map ?f xs)"
    using data_loop_map[OF assms, of "[]"]
    by (simp add: standardize_json_fields_def elements_of_def)
  have "\<exists>items out. xs ! i = JObj items \<and> transform_record items = Inr out \<and>
          map ?f xs ! i = JObj out" if "i < length xs" for i
  proof -
    from that assms obtain items where "xs ! i = JObj items" by (metis nth_mem)
    with that show ?thesis by (simp add: transform_record_foldl)
  qed
  with run show ?thesis by auto
qed

theorem C4_collection_order_witness:
  "\<exists>ys. standardize_json_fields (JArr [JObj [(''customField'', JInt 5)], JObj []]) = Inr ys \<and>
      length ys = 2"
proof -
  have a: "\<forall>x \<in> set [JObj [(''customField'', JInt 5)], JObj []]. \<exists>items. x = JObj items"
    by simp
  from C4_collection_order[OF a] show ?thesis by auto
qed

text \<open>
  C5. The conversion of a value never raises: it returns a value for every input. A
  text that passes the test of line 166 and whose parse raises is returned unchanged.
\<close>

theorem C5_never_raises:
  "(\<exists>w. convert_value v = Inr w) \<and>
   (looks_numeric s \<and> parse_number s = Inl e \<longrightarrow> convert_value (JStr s) = Inr (JStr s))"
proof
  show "\<exists>w. convert_value v = Inr w" using convert_value_coerced by blast
  show "looks_numeric s \<and> parse_number s = Inl e \<longrightarrow> convert_value (JStr s) = Inr (JStr s)"
    using parse_number_error[of s e] by (auto simp: convert_value_def)
qed

theorem C5_never_raises_witness:
  "looks_numeric ''--5'' \<and> parse_number ''--5'' = Inl ValueError \<and>
   convert_value (JStr ''--5'') = Inr (JStr ''--5'')"
proof -
  have a: "looks_numeric ''--5''" by (simp add: guard_eval)
  have b: "parse_number ''--5'' = Inl ValueError" by (simp add: parse_eval)
  from C5_never_raises[of "JNull" "''--5''" ValueError] a b show ?thesis by blast
qed

text \<open>
  C6, as stated, says that the test accepts every text of which nothing is left after
  the removals. The text \<open>.\<close> is such a text, and the test rejects it:
  \<^verbatim>\<open>''.isdigit()\<close> is false.
\<close>

theorem C6_empty_remainder_counterexample:
  "stripped ''.'' = [] \<and> \<not> looks_numeric ''.''"
  by (simp add: guard_eval)

text \<open>
  C6, amended. The test accepts \<open>1.2.3\<close> and \<open>--5\<close>; it rejects every text of which
  nothing is left after the removals; it rejects every text in which \<open>e-\<close> is followed
  by a digit; it rejects every text that starts with \<open>+\<close>.
\<close>

theorem C6_heuristic_edges:
  "looks_numeric ''1.2.3'' \<and> looks_numeric ''--5'' \<and>
   (stripped s = [] \<longrightarrow> \<not> looks_numeric s) \<and>
   (char_isdigit d \<and> sublist (''e-'' @ [d]) t \<longrightarrow> \<not> looks_numeric t) \<and>
   \<not> looks_numeric (CHR ''+'' # u)"
proof (intro conjI impI)
  show "looks_numeric ''1.2.3''" by (simp add: guard_eval)
  show "looks_numeric ''--5''" by (simp add: guard_eval)
  show "\<not> looks_numeric s" if "stripped s = []"
    using that by (simp add: looks_numeric_def str_isdigit_def)
  show "\<not> looks_numeric t" if "char_isdigit d \<and> sublist (''e-'' @ [d]) t"
    using that negative_exponent_rejected by blast
  show "\<not> looks_numeric (CHR ''+'' # u)" by (rule leading_plus_rejected)
qed

theorem C6_heuristic_edges_witness:
  "stripped ''-.'' = [] \<and> \<not> looks_numeric ''-.'' \<and>
   char_isdigit CHR ''5'' \<and> sublist (''e-'' @ [CHR ''5'']) ''1e-5'' \<and> \<not> looks_numeric ''1e-5'' \<and>
   \<not> looks_numeric ''+5''"
proof -
  have a: "stripped ''-.'' = []" by (simp add: stripped_def)
  have b: "char_isdigit CHR ''5''" by (simp add: char_isdigit_def)
  have c: "sublist (''e-'' @ [CHR ''5'']) ''1e-5''" by (simp add: sublist_Cons_right)
  from C6_heuristic_edges[of "''-.''" "CHR ''5''" "''1e-5''" "''5''"] a b c show ?thesis by blast
qed

text \<open>
  C7. The conversion maps \<open>123\<close> to the integer 123, \<open>123.45\<close> to the float 123.45,
  \<open>1.5E+10\<close> to the float 1.5e10 and \<open>-42\<close> to the integer -42, and it leaves \<open>abc\<close>
  and the empty text unchanged.
\<close>

theorem C7_examples:
  "convert_value (JStr ''123'') = Inr (JInt 123) \<and>
   convert_value (JStr ''123.45'') = Inr (JFloat (Rounded False (12345 / 100))) \<and>
   convert_value (JStr ''1.5E+10'') = Inr (JFloat (Rounded False 15000000000)) \<and>
   convert_value (JStr ''-42'') = Inr (JInt (- 42)) \<and>
   convert_value (JStr ''abc'') = Inr (JStr ''abc'') \<and>
   convert_value (JStr '''') = Inr (JStr '''')"
proof (intro conjI)
  show "convert_value (JStr ''123'') = Inr (JInt 123)"
    by (simp add: convert_value_def guard_eval parse_eval)
  show "convert_value (JStr ''123.45'') = Inr (JFloat (Rounded False (12345 / 100)))"
    by (simp add: convert_value_def guard_eval parse_eval)
  show "convert_value (JStr ''1.5E+10'') = Inr (JFloat (Rounded False 15000000000))"
    by (simp add: convert_value_def guard_eval parse_eval)
  show "convert_value (JStr ''-42'') = Inr (JInt (- 42))"
    by (simp add: convert_value_def guard_eval parse_eval)
  show "convert_value (JStr ''abc'') = Inr (JStr ''abc'')"
    by (simp add: convert_value_def guard_eval)
  show "convert_value (JStr '''') = Inr (JStr '''')"
    by (simp add: convert_value_def guard_eval)
qed

text \<open>
  C8. The transform of a record is idempotent: it returns a record, and the transform
  of that record is the same record, entry for entry and in the same order.
\<close>

theorem C8_idempotent:
  "\<exists>out. transform_record items = Inr out \<and> transform_record out = Inr out"
proof (intro exI conjI)
  show "transform_record items = Inr (foldl put_field [] items)"
    by (rule transform_record_foldl)
  show "transform_record (foldl put_field [] items) = Inr (foldl put_field [] items)"
    by (simp only: transform_record_foldl transform_twice)
qed

text \<open>
  C9. The keys of the transformed record are canonical keys of the table or keys of
  the input record that the table does not map; every key of the transformed record is
  the image of a key of the input record; and every key of the input record is
  represented by exactly one key of the transformed record, its image.
\<close>

theorem C9_key_set:
  "\<exists>out. transform_record items = Inr out \<and>
     fst ` set out \<subseteq> snd ` set FIELD_MAPPING \<union> (fst ` set items - fst ` set FIELD_MAPPING) \<and>
     (\<forall>k' \<in> fst ` set out. \<exists>k \<in> fst ` set items. new_field k = k') \<and>
     (\<forall>k \<in> fst ` set items. \<exists>!k'. k' \<in> fst ` set out \<and> k' = new_field k)"
proof (intro exI conjI)
  let ?out = "foldl put_field [] items"
  have keys: "fst ` set ?out = new_field ` fst ` set items" by (simp add: keys_foldl)
  show "transform_record items = Inr ?out" by (rule transform_record_foldl)
  have "new_field k \<in> snd ` set FIELD_MAPPING \<union> (fst ` set items - fst ` set FIELD_MAPPING)"
    if "k \<in> fst ` set items" for k
  proof (cases "k \<in> fst ` set FIELD_MAPPING")
    case True
    then obtain c where kc: "(k, c) \<in> set FIELD_MAPPING" by auto
    then have "new_field k = c" by (rule new_field_in_table)
    moreover from kc have "c \<in> snd ` set FIELD_MAPPING" by (metis image_eqI snd_conv)
    ultimately show ?thesis by simp
  next
    case False
    then have "new_field k = k" by (rule new_field_not_in_table)
    with False that show ?thesis by simp
  qed
  then show "fst ` set ?out \<subseteq> snd ` set FIELD_MAPPING \<union> (fst ` set items - fst ` set FIELD_MAPPING)"
    unfolding keys by (rule image_subsetI)
  show "\<forall>k' \<in> fst ` set ?out. \<exists>k \<in> fst ` set items. new_field k = k'"
    unfolding keys by blast
  show "\<forall>k \<in> fst ` set items. \<exists>!k'. k' \<in> fst ` set ?out \<and> k' = new_field k"
    unfolding keys by auto
qed

theorem C9_key_set_witness:
  "''LOC_ID'' \<in> fst ` set [(''LOC_ID'', JStr ''ABC''), (''customField'', JInt 5)] \<and>
   (\<exists>out. transform_record [(''LOC_ID'', JStr ''ABC''), (''customField'', JInt 5)] = Inr out \<and>
      new_field ''LOC_ID'' \<in> fst ` set out)"
proof -
  let ?items = "[(''LOC_ID'', JStr ''ABC''), (''customField'', JInt 5)]"
  have a: "''LOC_ID'' \<in> fst ` set ?items" by simp
  from C9_key_set[of ?items] obtain out where out:
    "transform_record ?items = Inr out \<and>
     fst ` set out \<subseteq> snd ` set FIELD_MAPPING \<union> (fst ` set ?items - fst ` set FIELD_MAPPING) \<and>
     (\<forall>k' \<in> fst ` set out. \<exists>k \<in> fst ` set ?items. new_field k = k') \<and>
     (\<forall>k \<in> fst ` set ?items. \<exists>!k'. k' \<in> fst ` set out \<and> k' = new_field k)" ..
  from out have o1: "transform_record ?items = Inr out" by (rule conjunct1)
  from out have o3: "\<forall>k \<in> fst ` set ?items. \<exists>!k'. k' \<in> fst ` set out \<and> k' = new_field k"
    by (rule conjunct2[OF conjunct2[OF conjunct2]])
  from o3 a have "\<exists>!k'. k' \<in> fst ` set out \<and> k' = new_field ''LOC_ID''"
    by (rule bspec)
  then have "\<exists>k'. k' \<in> fst ` set out \<and> k' = new_field ''LOC_ID''"
    by (rule ex1_implies_ex)
  then obtain k' where kk: "k' \<in> fst ` set out \<and> k' = new_field ''LOC_ID''" ..
  from kk have k1: "k' \<in> fst ` set out" by (rule conjunct1)
  from kk have k2: "k' = new_field ''LOC_ID''" by (rule conjunct2)
  from k1 have u: "new_field ''LOC_ID'' \<in> fst ` set out" unfolding k2 .
  show ?thesis
    by (intro conjI exI[of _ out]) (rule a o1 u)+
qed

text \<open>
  C10. The value stored for a field depends on the value of the field only: two fields
  with the same value \<open>v\<close>, under any keys and at any places of their records, are stored
  with the same converted value, the one that the conversion gives for \<open>v\<close>. (A field
  is read back from the output under its canonical key, so no later field of its record
  may map to that key.)
\<close>

theorem C10_value_alone:
  assumes "\<forall>p \<in> set zs1. new_field (fst p) \<noteq> new_field k1"
    and "\<forall>p \<in> set zs2. new_field (fst p) \<noteq> new_field k2"
  shows "\<exists>out1 out2 w. convert_value v = Inr w \<and>
           transform_record (xs1 @ (k1, v) # zs1) = Inr out1 \<and>
           transform_record (xs2 @ (k2, v) # zs2) = Inr out2 \<and>
           map_of out1 (new_field k1) = Some w \<and> map_of out2 (new_field k2) = Some w"
proof (intro exI conjI)
  show "convert_value v = Inr (coerced v)" by (rule convert_value_coerced)
  show "transform_record (xs1 @ (k1, v) # zs1) = Inr (foldl put_field [] (xs1 @ (k1, v) # zs1))"
    by (rule transform_record_foldl)
  show "transform_record (xs2 @ (k2, v) # zs2) = Inr (foldl put_field [] (xs2 @ (k2, v) # zs2))"
    by (rule transform_record_foldl)
  show "map_of (foldl put_field [] (xs1 @ (k1, v) # zs1)) (new_field k1) = Some (coerced v)"
    using assms(1) by (rule stored_value)
  show "map_of (foldl put_field [] (xs2 @ (k2, v) # zs2)) (new_field k2) = Some (coerced v)"
    using assms(2) by (rule stored_value)
qed

theorem C10_value_alone_witness:
  "\<exists>out. transform_record [(''LOC_ID'', JStr ''12''), (''Airport'', JStr ''12'')] = Inr out \<and>
      map_of out (new_field ''LOC_ID'') = Some (JInt 12) \<and>
      map_of out (new_field ''Airport'') = Some (JInt 12)"
proof -
  have t1: "(''LOC_ID'', ''locId'') \<in> set FIELD_MAPPING"
    unfolding FIELD_MAPPING_def by (rule list.set_intros(1))
  have t2: "(''Airport'', ''airportName'') \<in> set FIELD_MAPPING"
    unfolding FIELD_MAPPING_def by (rule list.set_intros(2)[OF list.set_intros(1)])
  have n1: "new_field ''LOC_ID'' = ''locId''" using t1 by (rule new_field_in_table)
  have n2: "new_field ''Airport'' = ''airportName''" using t2 by (rule new_field_in_table)
  have a: "\<forall>p \<in> set [(''Airport'', JStr ''12'')]. new_field (fst p) \<noteq> new_field ''LOC_ID''"
    by (simp add: n1 n2)
  have b: "\<forall>p \<in> set ([] :: (string \<times> json) list). new_field (fst p) \<noteq> new_field ''Airport''"
    by simp
  have v: "convert_value (JStr ''12'') = Inr (JInt 12)"
    by (simp add: convert_value_def guard_eval parse_eval)
  from C10_value_alone[OF a b, of "JStr ''12''" "[]" "[(''LOC_ID'', JStr ''12'')]"] v
  show ?thesis by auto
qed

end
